theory Spec2Isabelle
  imports Complex_Main "HOL-Library.Sublist" "HOL-Library.Char_ord" "HOL-Library.List_Lexorder"
begin

section \<open>Values of the program\<close>

text \<open>
  A decoded JSON document, as \<open>r.json()\<close> returns it. A dict is an association list
  read with \<open>map_of\<close>. Strings are UTF-8 byte sequences: on them the byte-wise suffix
  test and the byte-wise lexicographic order agree with Python's \<open>str.endswith\<close> and
  \<open>sorted\<close>. A number is kept as a rational; the program only ever asks whether it
  is zero.
\<close>

datatype json =
    JNull
  | JBool bool
  | JNum rat
  | JStr string
  | JList "json list"
  | JDict "(string \<times> json) list"

text \<open>The exceptions the module can raise.\<close>

datatype error =
    ValueError string
  | RuntimeError string
  | TypeError
  | AttributeError
  | OverflowError

text \<open>Python truth value of a decoded document (\<open>if x\<close>, \<open>not x\<close>, \<open>x or y\<close>).\<close>

fun truthy :: "json \<Rightarrow> bool" where
  "truthy JNull = False"
| "truthy (JBool b) = b"
| "truthy (JNum n) = (n \<noteq> 0)"
| "truthy (JStr s) = (s \<noteq> [])"
| "truthy (JList xs) = (xs \<noteq> [])"
| "truthy (JDict kvs) = (kvs \<noteq> [])"

definition py_or :: "json \<Rightarrow> json \<Rightarrow> json" where
  "py_or a b = (if truthy a then a else b)"

text \<open>\<open>x.get(k, default)\<close>: only a dict has the method.\<close>

fun dict_get :: "json \<Rightarrow> string \<Rightarrow> json \<Rightarrow> error + json" where
  "dict_get (JDict kvs) k d = Inr (case map_of kvs k of Some v \<Rightarrow> v | None \<Rightarrow> d)"
| "dict_get _ k d = Inl AttributeError"

text \<open>\<open>isinstance(data, dict) and k in data\<close>.\<close>

fun dict_has :: "json \<Rightarrow> string \<Rightarrow> bool" where
  "dict_has (JDict kvs) k = (map_of kvs k \<noteq> None)"
| "dict_has _ k = False"

text \<open>
  The code points of a UTF-8 string, each as a string of its own: what iterating a
  Python \<open>str\<close> yields.
\<close>

definition utf8_len :: "char \<Rightarrow> nat" where
  "utf8_len c = (let n = (of_char c :: nat) in
     if n < 192 then 1 else if n < 224 then 2 else if n < 240 then 3 else 4)"

function code_points :: "string \<Rightarrow> string list" where
  "code_points [] = []"
| "code_points (c # cs) =
     (c # take (utf8_len c - 1) cs) # code_points (drop (utf8_len c - 1) cs)"
  by pat_completeness auto
termination
  by (relation "measure length") auto

text \<open>\<open>for x in v\<close>: the elements of a list, the code points of a string, the keys of a
  dict; anything else is not iterable.\<close>

fun py_iter :: "json \<Rightarrow> error + json list" where
  "py_iter (JList xs) = Inr xs"
| "py_iter (JStr s) = Inr (map JStr (code_points s))"
| "py_iter (JDict kvs) = Inr (map JStr (remdups (map fst kvs)))"
| "py_iter _ = Inl TypeError"

text \<open>\<open>s.endswith(d)\<close> on strings.\<close>

definition endswith :: "string \<Rightarrow> string \<Rightarrow> bool" where
  "endswith s d = suffix d s"

text \<open>\<open>sorted(set(xs))\<close> and \<open>sorted(S)\<close> on strings.\<close>

definition sorted_set :: "string set \<Rightarrow> string list" where
  "sorted_set S = sorted_list_of_set S"

text \<open>Decimal rendering of an integer, as an f-string formats it.\<close>

fun str_nat :: "nat \<Rightarrow> string" where
  "str_nat n = (if n < 10 then [char_of (48 + n)]
                else str_nat (n div 10) @ [char_of (48 + n mod 10)])"

definition str_int :: "int \<Rightarrow> string" where
  "str_int i = (if i < 0 then CHR ''-'' # str_nat (nat (- i)) else str_nat (nat i))"

section \<open>The client and the world it talks to\<close>

record client =
  api_key :: string
  base :: string
  headers :: "(string \<times> string) list"
  timeout :: int

datatype http_method = GET | POST

record request =
  req_method :: http_method
  req_url :: string
  req_headers :: "(string \<times> string) list"
  req_data :: "json option"
  req_timeout :: int

text \<open>
  What one call of \<open>session.get\<close> / \<open>session.post\<close> produces: a response with its
  status code and its body (\<open>None\<close> when the body does not decode as JSON), or a
  \<open>requests.RequestException\<close> raised by the transport itself.
\<close>

datatype reply = Response int "json option" | Failure

text \<open>
  The transport answers the request it is given; its answer may depend on how many
  requests were issued before. The world records every request issued and every
  \<open>time.sleep\<close> duration slept, in order.
\<close>

type_synonym transport = "nat \<Rightarrow> request \<Rightarrow> reply"

record world =
  sent :: "request list"
  sleeps :: "rat list"

text \<open>
  \<open>time.sleep(d)\<close>. The duration is first converted to a signed 64-bit count of
  nanoseconds, which raises OverflowError when it does not fit; a negative duration then
  raises ValueError. Neither is a RequestException. Otherwise the duration is slept.
\<close>

definition sleep_max :: rat where
  "sleep_max = (2 ^ 63 - 1) / 10 ^ 9"

definition sleep :: "rat \<Rightarrow> world \<Rightarrow> error + world" where
  "sleep d w =
     (if d < - sleep_max \<or> sleep_max < d then Inl OverflowError
      else if d < 0 then Inl (ValueError ''sleep length must be non-negative'')
      else Inr (w\<lparr>sleeps := sleeps w @ [d]\<rparr>))"

definition send :: "transport \<Rightarrow> request \<Rightarrow> world \<Rightarrow> reply \<times> world" where
  "send tr rq w = (tr (length (sent w)) rq, w\<lparr>sent := sent w @ [rq]\<rparr>)"


subsection \<open>Construction\<close>

definition rstrip_slash :: "string \<Rightarrow> string" where
  "rstrip_slash s = rev (dropWhile (\<lambda>c. c = CHR ''/'') (rev s))"

text \<open>\<open>api_key or os.getenv(...)\<close> on optional strings.\<close>

definition opt_truthy :: "string option \<Rightarrow> bool" where
  "opt_truthy k = (case k of None \<Rightarrow> False | Some s \<Rightarrow> s \<noteq> [])"

definition opt_or :: "string option \<Rightarrow> string option \<Rightarrow> string option" where
  "opt_or a b = (if opt_truthy a then a else b)"

definition DEFAULT_BASE :: string where
  "DEFAULT_BASE = ''https://api.securitytrails.com/v1''"

definition no_key_message :: string where
  "no_key_message =
     ''SecurityTrails API key not provided. Set SECURITYTRAILS_APIKEY or pass api_key param.''"

text \<open>
  \<open>SecurityTrailsClient.__init__\<close>. The environment is a map from variable names to
  values. The world is threaded through unchanged: construction builds the session and
  its headers and sends nothing. The headers are the ones the constructor sets, on top
  of the defaults of the library's session.
\<close>

definition init ::
  "string option \<Rightarrow> (string \<rightharpoonup> string) \<Rightarrow> string \<Rightarrow> int \<Rightarrow> world \<Rightarrow> (error + client) \<times> world"
where
  "init key env base_url tmo w =
     (let k = opt_or key (env ''SECURITYTRAILS_APIKEY'') in
      if \<not> opt_truthy k then (Inl (ValueError no_key_message), w)
      else
        (case k of
           None \<Rightarrow> (Inl (ValueError no_key_message), w)
         | Some a \<Rightarrow>
             (Inr \<lparr>api_key = a,
                   base = rstrip_slash base_url,
                   headers = [(''Accept'', ''application/json''),
                              (''APIKEY'', a),
                              (''User-Agent'', ''BlackByt3-Subenum/1.0 (by Jahangir)'')],
                   timeout = tmo\<rparr>, w)))"

subsection \<open>The request layer\<close>

text \<open>\<open>r.raise_for_status()\<close> raises for the 4xx and 5xx codes only.\<close>

definition raises_for_status :: "int \<Rightarrow> bool" where
  "raises_for_status status = (400 \<le> status \<and> status < 600)"

text \<open>
  The body of the retry loop of \<open>_get\<close> and \<open>_post\<close>, over the attempt numbers still
  to run. \<open>Inr (Some v)\<close> is the early \<open>return r.json()\<close>; \<open>Inr None\<close> is falling
  out of the loop; \<open>Inl e\<close> is an exception that leaves the loop, which only
  \<open>time.sleep\<close> can raise (in the 429 branch or in the \<open>except\<close> clause). A body
  that does not decode makes \<open>r.json()\<close> raise requests' JSONDecodeError, which is a
  RequestException and is handled by the \<open>except\<close> clause like a transport fault. A
  status that is neither 200 nor 429 and for which \<open>raise_for_status\<close> does not raise
  goes to the next attempt without sleeping.
\<close>

fun attempts ::
  "transport \<Rightarrow> request \<Rightarrow> rat \<Rightarrow> int list \<Rightarrow> world \<Rightarrow> (error + json option) \<times> world"
where
  "attempts tr rq backoff [] w = (Inr None, w)"
| "attempts tr rq backoff (attempt # rest) w =
     (case send tr rq w of
        (Failure, w1) \<Rightarrow>
          (case sleep (backoff * of_int attempt) w1 of
             Inl e \<Rightarrow> (Inl e, w1)
           | Inr w2 \<Rightarrow> attempts tr rq backoff rest w2)
      | (Response status body, w1) \<Rightarrow>
          if status = 200 then
            (case body of
               Some v \<Rightarrow> (Inr (Some v), w1)
             | None \<Rightarrow>
                 (case sleep (backoff * of_int attempt) w1 of
                    Inl e \<Rightarrow> (Inl e, w1)
                  | Inr w2 \<Rightarrow> attempts tr rq backoff rest w2))
          else if status = 429 then
            (case sleep (backoff * of_int attempt) w1 of
               Inl e \<Rightarrow> (Inl e, w1)
             | Inr w2 \<Rightarrow> attempts tr rq backoff rest w2)
          else if raises_for_status status then
            (case sleep (backoff * of_int attempt) w1 of
               Inl e \<Rightarrow> (Inl e, w1)
             | Inr w2 \<Rightarrow> attempts tr rq backoff rest w2)
          else attempts tr rq backoff rest w1)"

definition get_request :: "client \<Rightarrow> string \<Rightarrow> json option \<Rightarrow> request" where
  "get_request c path params =
     \<lparr>req_method = GET, req_url = base c @ path, req_headers = headers c,
      req_data = params, req_timeout = timeout c\<rparr>"

definition post_request :: "client \<Rightarrow> string \<Rightarrow> json \<Rightarrow> request" where
  "post_request c path json_body =
     \<lparr>req_method = POST, req_url = base c @ path, req_headers = headers c,
      req_data = Some json_body, req_timeout = timeout c\<rparr>"

text \<open>\<open>_get\<close>: \<open>for attempt in range(1, retries + 1)\<close>, then the RuntimeError.\<close>

definition client_get ::
  "transport \<Rightarrow> client \<Rightarrow> string \<Rightarrow> json option \<Rightarrow> int \<Rightarrow> rat \<Rightarrow> world \<Rightarrow> (error + json) \<times> world"
where
  "client_get tr c path params retries backoff w =
     (case attempts tr (get_request c path params) backoff [1..retries] w of
        (Inl e, w') \<Rightarrow> (Inl e, w')
      | (Inr (Some v), w') \<Rightarrow> (Inr v, w')
      | (Inr None, w') \<Rightarrow>
          (Inl (RuntimeError (''GET request to '' @ base c @ path @ '' failed after ''
                 @ str_int retries @ '' attempts'')), w'))"

text \<open>\<open>_post\<close>.\<close>

definition client_post ::
  "transport \<Rightarrow> client \<Rightarrow> string \<Rightarrow> json \<Rightarrow> int \<Rightarrow> rat \<Rightarrow> world \<Rightarrow> (error + json) \<times> world"
where
  "client_post tr c path json_body retries backoff w =
     (case attempts tr (post_request c path json_body) backoff [1..retries] w of
        (Inl e, w') \<Rightarrow> (Inl e, w')
      | (Inr (Some v), w') \<Rightarrow> (Inr v, w')
      | (Inr None, w') \<Rightarrow>
          (Inl (RuntimeError (''POST request to '' @ base c @ path @ '' failed after ''
                 @ str_int retries @ '' attempts'')), w'))"

subsection \<open>list\_subdomains\<close>

text \<open>
  The value of \<open>full\<close> for one fragment \<open>s\<close>:
  \<open>s if s.endswith(domain) else (f"{s}.{domain}" if s else None)\<close>. Only a string has
  \<open>endswith\<close>.
\<close>

fun fragment_full :: "string \<Rightarrow> json \<Rightarrow> error + string option" where
  "fragment_full domain (JStr s) =
     Inr (if endswith s domain then Some s
          else if s \<noteq> [] then Some (s @ ''.'' @ domain) else None)"
| "fragment_full domain _ = Inl AttributeError"

text \<open>The \<open>for s in ...\<close> loop, appending every truthy \<open>full\<close>.\<close>

fun collect_fragments :: "string \<Rightarrow> json list \<Rightarrow> string list \<Rightarrow> error + string list" where
  "collect_fragments domain [] subdomains = Inr subdomains"
| "collect_fragments domain (s # ss) subdomains =
     (case fragment_full domain s of
        Inl e \<Rightarrow> Inl e
      | Inr full \<Rightarrow>
          collect_fragments domain ss
            (case full of
               Some f \<Rightarrow> if f \<noteq> [] then subdomains @ [f] else subdomains
             | None \<Rightarrow> subdomains))"

definition list_subdomains ::
  "transport \<Rightarrow> client \<Rightarrow> string \<Rightarrow> world \<Rightarrow> (error + string list \<times> json) \<times> world"
where
  "list_subdomains tr c domain w =
     (case client_get tr c (''/domain/'' @ domain @ ''/subdomains'') None 3 1 w of
        (Inl e, w') \<Rightarrow> (Inl e, w')
      | (Inr data, w') \<Rightarrow>
          if dict_has data ''subdomains'' then
            (case dict_get data ''subdomains'' (JList []) of
               Inl e \<Rightarrow> (Inl e, w')
             | Inr v \<Rightarrow>
                 (case py_iter v of
                    Inl e \<Rightarrow> (Inl e, w')
                  | Inr ss \<Rightarrow>
                      (case collect_fragments domain ss [] of
                         Inl e \<Rightarrow> (Inl e, w')
                       | Inr subdomains \<Rightarrow> (Inr (sorted_set (set subdomains), data), w'))))
          else (Inr (sorted_set (set []), data), w'))"

subsection \<open>search\_subdomains\<close>

definition search_body :: "string \<Rightarrow> int \<Rightarrow> int \<Rightarrow> json" where
  "search_body domain page_size page =
     JDict [(''filter'', JDict [(''apex_domain'', JStr domain)]),
            (''limit'', JNum (of_int page_size)),
            (''page'', JNum (of_int page))]"

text \<open>\<open>r.get("hostname") or r.get("domain")\<close>.\<close>

definition record_hostname :: "json \<Rightarrow> error + json" where
  "record_hostname r =
     (case dict_get r ''hostname'' JNull of
        Inl e \<Rightarrow> Inl e
      | Inr h \<Rightarrow>
          (case dict_get r ''domain'' JNull of
             Inl e \<Rightarrow> Inl e
           | Inr d \<Rightarrow> Inr (py_or h d)))"

text \<open>\<open>if hostname and hostname.endswith(domain): all_subdomains.add(hostname)\<close>.\<close>

fun add_hostname :: "string \<Rightarrow> json \<Rightarrow> string set \<Rightarrow> error + string set" where
  "add_hostname domain (JStr h) acc =
     Inr (if h \<noteq> [] \<and> endswith h domain then insert h acc else acc)"
| "add_hostname domain hostname acc =
     (if truthy hostname then Inl AttributeError else Inr acc)"

text \<open>The \<open>for r in records\<close> loop.\<close>

fun add_records :: "string \<Rightarrow> json list \<Rightarrow> string set \<Rightarrow> error + string set" where
  "add_records domain [] acc = Inr acc"
| "add_records domain (r # rs) acc =
     (case record_hostname r of
        Inl e \<Rightarrow> Inl e
      | Inr hostname \<Rightarrow>
          (case add_hostname domain hostname acc of
             Inl e \<Rightarrow> Inl e
           | Inr acc' \<Rightarrow> add_records domain rs acc'))"

text \<open>
  The \<open>for page in range(1, max_pages + 1)\<close> loop over the pages still to fetch, with
  the aggregate set and the raw pages collected so far.
\<close>

fun search_pages ::
  "transport \<Rightarrow> client \<Rightarrow> string \<Rightarrow> int \<Rightarrow> int list \<Rightarrow> string set \<Rightarrow> json list \<Rightarrow> world
     \<Rightarrow> (error + string set \<times> json list) \<times> world"
where
  "search_pages tr c domain page_size [] all_subdomains raw_pages w =
     (Inr (all_subdomains, raw_pages), w)"
| "search_pages tr c domain page_size (page # pages) all_subdomains raw_pages w =
     (case client_post tr c ''/domains/list'' (search_body domain page_size page) 3 1 w of
        (Inl e, w1) \<Rightarrow> (Inl e, w1)
      | (Inr resp, w1) \<Rightarrow>
          (case dict_get resp ''records'' (JList []) of
             Inl e \<Rightarrow> (Inl e, w1)
           | Inr records \<Rightarrow>
               (case py_iter records of
                  Inl e \<Rightarrow> (Inl e, w1)
                | Inr rs \<Rightarrow>
                    (case add_records domain rs all_subdomains of
                       Inl e \<Rightarrow> (Inl e, w1)
                     | Inr all' \<Rightarrow>
                         if \<not> truthy records then (Inr (all', raw_pages @ [resp]), w1)
                         else
                           (case sleep (3 / 10) w1 of
                              Inl e \<Rightarrow> (Inl e, w1)
                            | Inr w2 \<Rightarrow>
                                search_pages tr c domain page_size pages all'
                                  (raw_pages @ [resp]) w2)))))"

definition search_subdomains ::
  "transport \<Rightarrow> client \<Rightarrow> string \<Rightarrow> int \<Rightarrow> int \<Rightarrow> world \<Rightarrow> (error + string list \<times> json) \<times> world"
where
  "search_subdomains tr c domain page_size max_pages w =
     (case search_pages tr c domain page_size [1..max_pages] {} [] w of
        (Inl e, w') \<Rightarrow> (Inl e, w')
      | (Inr (all_subdomains, raw_pages), w') \<Rightarrow>
          (Inr (sorted_set all_subdomains, JDict [(''pages'', JList raw_pages)]), w'))"

subsection \<open>merge\_sources\<close>

text \<open>
  \<open>merged.update(l or [])\<close> for every argument, each a list or \<open>None\<close>, then
  \<open>sorted(merged)\<close>.
\<close>

definition or_empty :: "string list option \<Rightarrow> string list" where
  "or_empty l = (case l of None \<Rightarrow> [] | Some xs \<Rightarrow> if xs \<noteq> [] then xs else [])"

fun merge_loop :: "string list option list \<Rightarrow> string set \<Rightarrow> string set" where
  "merge_loop [] merged = merged"
| "merge_loop (l # ls) merged = merge_loop ls (merged \<union> set (or_empty l))"

definition merge_sources :: "string list option list \<Rightarrow> string list" where
  "merge_sources ls = sorted_set (merge_loop ls {})"

section \<open>The specification's words\<close>

text \<open>
  What one fragment contributes to the listing, as the specification puts it: nothing
  when it is empty, itself when it already ends with the domain, and otherwise the
  fragment, a dot and the domain.
\<close>

definition spec_fragment :: "string \<Rightarrow> string \<Rightarrow> string list" where
  "spec_fragment domain s =
     (if s = [] then [] else if suffix domain s then [s] else [s @ ''.'' @ domain])"

section \<open>Search responses\<close>

text \<open>The request \<open>search_subdomains\<close> posts for one page.\<close>

definition page_request :: "client \<Rightarrow> string \<Rightarrow> int \<Rightarrow> int \<Rightarrow> request" where
  "page_request c domain page_size page =
     post_request c ''/domains/list'' (search_body domain page_size page)"

text \<open>
  A transport that answers the given requests, issued in this order from request number
  \<open>n\<close> on, each at its first attempt with status 200 and the given document.
\<close>

fun serves :: "transport \<Rightarrow> nat \<Rightarrow> request list \<Rightarrow> json list \<Rightarrow> bool" where
  "serves tr n [] [] = True"
| "serves tr n (rq # rqs) (d # ds) = (tr n rq = Response 200 (Some d) \<and> serves tr (Suc n) rqs ds)"
| "serves tr n rqs ds = False"

text \<open>
  The shape of a search response: each record is a dict whose \<open>hostname\<close> and
  \<open>domain\<close> fields, where present, are strings or null; the records of a page are
  the list under \<open>records\<close> (none when the key is absent). A full page has at
  least one record, the last page has none.
\<close>

fun str_or_null :: "json option \<Rightarrow> bool" where
  "str_or_null None = True"
| "str_or_null (Some JNull) = True"
| "str_or_null (Some (JStr s)) = True"
| "str_or_null (Some v) = False"

fun wf_record :: "json \<Rightarrow> bool" where
  "wf_record (JDict kvs) = (str_or_null (map_of kvs ''hostname'') \<and> str_or_null (map_of kvs ''domain''))"
| "wf_record r = False"

fun page_records :: "json \<Rightarrow> json list option" where
  "page_records (JDict kvs) =
     (case map_of kvs ''records'' of
        None \<Rightarrow> Some []
      | Some (JList rs) \<Rightarrow> Some rs
      | Some v \<Rightarrow> None)"
| "page_records d = None"

text \<open>
  The records the search loop goes through on a page: what iterating
  \<open>resp.get("records", [])\<close> yields, and nothing where that raises.
\<close>

definition records_of :: "json \<Rightarrow> json list" where
  "records_of d =
     (case dict_get d ''records'' (JList []) of
        Inl e \<Rightarrow> []
      | Inr v \<Rightarrow> (case py_iter v of Inl e \<Rightarrow> [] | Inr rs \<Rightarrow> rs))"

definition full_page :: "json \<Rightarrow> bool" where
  "full_page d = (case page_records d of Some rs \<Rightarrow> rs \<noteq> [] \<and> list_all wf_record rs | None \<Rightarrow> False)"

definition last_page :: "json \<Rightarrow> bool" where
  "last_page d = (page_records d = Some [])"

text \<open>
  The hostnames the search keeps from a list of records: the selected hostname of each
  record, when it is a non-empty string that ends with the domain.
\<close>

definition selected :: "json \<Rightarrow> string list" where
  "selected r = (case record_hostname r of Inr (JStr h) \<Rightarrow> [h] | _ \<Rightarrow> [])"

definition matching_hosts :: "string \<Rightarrow> json list \<Rightarrow> string list" where
  "matching_hosts domain rs =
     filter (\<lambda>h. h \<noteq> [] \<and> suffix domain h) (concat (map selected rs))"

text \<open>Concrete clients, pages and transports for the examples.\<close>

abbreviation demo_client :: client where
  "demo_client \<equiv> \<lparr>api_key = ''k'', base = ''https://h/v1'', headers = [], timeout = 15\<rparr>"

abbreviation fresh_world :: world where
  "fresh_world \<equiv> \<lparr>sent = [], sleeps = []\<rparr>"

abbreviation page_end :: json where
  "page_end \<equiv> JDict [(''records'', JList [])]"

abbreviation page_evil :: json where
  "page_evil \<equiv> JDict [(''records'',
     JList [JDict [(''hostname'', JStr ''evil-example.com'')],
            JDict [(''hostname'', JStr ''api.example.com'')],
            JDict [(''hostname'', JStr ''example.org'')]])]"

abbreviation evil_transport :: transport where
  "evil_transport \<equiv> \<lambda>n rq. Response 200 (Some (if n = 0 then page_evil else page_end))"

abbreviation retried_evil_transport :: transport where
  "retried_evil_transport \<equiv>
     \<lambda>n rq. if n = 0 then Response 429 None else Response 200 (Some page_evil)"

abbreviation page_empty_hostname :: json where
  "page_empty_hostname \<equiv> JDict [(''records'',
     JList [JDict [(''hostname'', JStr []), (''domain'', JStr ''api.example.com'')]])]"

abbreviation fallback_transport :: transport where
  "fallback_transport \<equiv>
     \<lambda>n rq. Response 200 (Some (if n = 0 then page_empty_hostname else page_end))"

abbreviation page_a :: json where
  "page_a \<equiv> JDict [(''records'', JList [JDict [(''hostname'', JStr ''a.example.com'')]])]"

abbreviation page_b :: json where
  "page_b \<equiv> JDict [(''records'', JList [JDict [(''domain'', JStr ''b.example.com'')]])]"

abbreviation three_pages :: transport where
  "three_pages \<equiv>
     \<lambda>n rq. Response 200 (Some (if n = 0 then page_a else if n = 1 then page_b else page_end))"

section \<open>Properties\<close>

subsection \<open>Aggregation and construction\<close>

lemma merge_loop_union: "merge_loop ls m = m \<union> \<Union> (set ` or_empty ` set ls)"
  by (induction ls arbitrary: m) auto

lemma finite_merge_loop: "finite (merge_loop ls {})"
  by (simp add: merge_loop_union)

text \<open>
  Claim C5. \<open>merge_sources(A, B)\<close> equals \<open>merge_sources(B, A)\<close>; for every
  argument list the output has no duplicate, is sorted lexicographically and holds
  exactly the union of the arguments (\<open>None\<close> counting as empty); and merging a list
  with itself equals merging it once.
\<close>

theorem merge_sources_commutative_idempotent_sorted:
  "merge_sources [A, B] = merge_sources [B, A]
   \<and> distinct (merge_sources ls)
   \<and> sorted (merge_sources ls)
   \<and> set (merge_sources ls) = \<Union> (set ` or_empty ` set ls)
   \<and> merge_sources [A, A] = merge_sources [A]"
proof -
  have comm: "merge_sources [A, B] = merge_sources [B, A]"
    by (simp add: merge_sources_def Un_commute)
  have idem: "merge_sources [A, A] = merge_sources [A]"
    by (simp add: merge_sources_def)
  have d: "distinct (merge_sources ls)" and s: "sorted (merge_sources ls)"
    by (simp_all add: merge_sources_def sorted_set_def)
  have u: "set (merge_sources ls) = \<Union> (set ` or_empty ` set ls)"
    using finite_merge_loop [of ls]
    by (simp add: merge_sources_def sorted_set_def merge_loop_union)
  from comm idem d s u show ?thesis by blast
qed

text \<open>
  Claim C7. Construction sends nothing. It fails with the ValueError of the missing
  key exactly when the explicit argument is absent or empty and the environment
  variable is unset or empty. A non-empty explicit key is the credential; otherwise a
  non-empty environment value is.
\<close>

theorem init_credential_resolution:
  "snd (init key env base_url tmo w) = w
   \<and> (fst (init key env base_url tmo w) = Inl (ValueError no_key_message)
        \<longleftrightarrow> (key = None \<or> key = Some []) \<and>
            (env ''SECURITYTRAILS_APIKEY'' = None \<or> env ''SECURITYTRAILS_APIKEY'' = Some []))
   \<and> (\<forall>a. key = Some a \<and> a \<noteq> [] \<longrightarrow>
         (\<exists>c. fst (init key env base_url tmo w) = Inr c \<and> api_key c = a))
   \<and> (\<forall>e. (key = None \<or> key = Some []) \<and> env ''SECURITYTRAILS_APIKEY'' = Some e \<and> e \<noteq> [] \<longrightarrow>
         (\<exists>c. fst (init key env base_url tmo w) = Inr c \<and> api_key c = e))"
  by (cases key; cases "env ''SECURITYTRAILS_APIKEY''")
     (auto simp: init_def opt_or_def opt_truthy_def Let_def)

text \<open>The explicit key wins over the environment; without it the environment value is
  used; with neither, construction fails.\<close>

theorem init_credential_resolution_witness:
  "(\<exists>c. fst (init (Some ''k1'') [''SECURITYTRAILS_APIKEY'' \<mapsto> ''k2''] DEFAULT_BASE 15
            \<lparr>sent = [], sleeps = []\<rparr>) = Inr c \<and> api_key c = ''k1'')
   \<and> (\<exists>c. fst (init None [''SECURITYTRAILS_APIKEY'' \<mapsto> ''k2''] DEFAULT_BASE 15
            \<lparr>sent = [], sleeps = []\<rparr>) = Inr c \<and> api_key c = ''k2'')
   \<and> fst (init None Map.empty DEFAULT_BASE 15 \<lparr>sent = [], sleeps = []\<rparr>)
        = Inl (ValueError no_key_message)"
  using init_credential_resolution [of "Some ''k1''" "[''SECURITYTRAILS_APIKEY'' \<mapsto> ''k2'']"
          DEFAULT_BASE 15 "\<lparr>sent = [], sleeps = []\<rparr>"]
        init_credential_resolution [of None "[''SECURITYTRAILS_APIKEY'' \<mapsto> ''k2'']"
          DEFAULT_BASE 15 "\<lparr>sent = [], sleeps = []\<rparr>"]
        init_credential_resolution [of None Map.empty DEFAULT_BASE 15 "\<lparr>sent = [], sleeps = []\<rparr>"]
  by simp

text \<open>
  Claim C10. An explicit empty key behaves as no key at all: construction gives the
  same outcome, and it succeeds with the environment value whenever that value is
  non-empty.
\<close>

theorem init_empty_key_falls_back:
  "init (Some []) env base_url tmo w = init None env base_url tmo w
   \<and> (env ''SECURITYTRAILS_APIKEY'' = Some e \<and> e \<noteq> [] \<longrightarrow>
        init (Some []) env base_url tmo w =
          (Inr \<lparr>api_key = e, base = rstrip_slash base_url,
                headers = [(''Accept'', ''application/json''), (''APIKEY'', e),
                           (''User-Agent'', ''BlackByt3-Subenum/1.0 (by Jahangir)'')],
                timeout = tmo\<rparr>, w))"
  by (auto simp: init_def opt_or_def opt_truthy_def Let_def)

text \<open>With the variable set to \<open>k2\<close>, the empty key and the absent key both build the
  client whose credential is \<open>k2\<close>.\<close>

theorem init_empty_key_falls_back_witness:
  "init (Some []) [''SECURITYTRAILS_APIKEY'' \<mapsto> ''k2''] ''https://h/v1/'' 15 \<lparr>sent = [], sleeps = []\<rparr>
     = init None [''SECURITYTRAILS_APIKEY'' \<mapsto> ''k2''] ''https://h/v1/'' 15 \<lparr>sent = [], sleeps = []\<rparr>
   \<and> init (Some []) [''SECURITYTRAILS_APIKEY'' \<mapsto> ''k2''] ''https://h/v1/'' 15 \<lparr>sent = [], sleeps = []\<rparr>
     = (Inr \<lparr>api_key = ''k2'', base = ''https://h/v1'',
                headers = [(''Accept'', ''application/json''), (''APIKEY'', ''k2''),
                           (''User-Agent'', ''BlackByt3-Subenum/1.0 (by Jahangir)'')],
                timeout = 15\<rparr>, \<lparr>sent = [], sleeps = []\<rparr>)"
  using init_empty_key_falls_back [of "[''SECURITYTRAILS_APIKEY'' \<mapsto> ''k2'']" "''https://h/v1/''" 15
          "\<lparr>sent = [], sleeps = []\<rparr>" "''k2''"]
  by (auto simp: rstrip_slash_def)


subsection \<open>The request layer\<close>

lemma sleep_max_pos: "0 < sleep_max"
  by (simp add: sleep_max_def)

lemma sleep_ok:
  "0 \<le> d \<Longrightarrow> d \<le> sleep_max \<Longrightarrow> sleep d w = Inr (w\<lparr>sleeps := sleeps w @ [d]\<rparr>)"
  using sleep_max_pos by (simp add: sleep_def)

lemma sleep_Inr: "sleep d w = Inr w' \<Longrightarrow> w' = w\<lparr>sleeps := sleeps w @ [d]\<rparr>"
  by (simp add: sleep_def split: if_splits)

lemma sleep_pause: "sleep (3 / 10) w = Inr (w\<lparr>sleeps := sleeps w @ [3 / 10]\<rparr>)"
  by (rule sleep_ok) (simp_all add: sleep_max_def)

lemma length_upto_nat: "length [1..n] = nat n"
  by simp

text \<open>A negative backoff makes the first sleep raise: one request, then the ValueError.\<close>

lemma negative_backoff_aborts:
  "client_get (\<lambda>n rq. Response 503 None) demo_client ''/x'' None 3 (- 1) fresh_world =
     (Inl (ValueError ''sleep length must be non-negative''),
      \<lparr>sent = [get_request demo_client ''/x'' None], sleeps = []\<rparr>)"
  by code_simp




lemma client_post_alt:
  "client_post tr c path json_body retries backoff w =
     (case fst (attempts tr (post_request c path json_body) backoff [1..retries] w) of
        Inl e \<Rightarrow> Inl e
      | Inr (Some v) \<Rightarrow> Inr v
      | Inr None \<Rightarrow> Inl (RuntimeError (''POST request to '' @ base c @ path @ '' failed after ''
                 @ str_int retries @ '' attempts'')),
      snd (attempts tr (post_request c path json_body) backoff [1..retries] w))"
  by (simp add: client_post_def split: prod.splits sum.splits option.splits)



lemma upto_three: "3 \<le> n \<Longrightarrow> [1..n] = 1 # 2 # 3 # [4..n]"
  by (simp add: upto_rec1)

lemma attempts_429_429_200:
  assumes "tr (length (sent w)) rq = Response 429 b1"
    and "tr (length (sent w) + 1) rq = Response 429 b2"
    and "tr (length (sent w) + 2) rq = Response 200 (Some body)"
    and "0 \<le> backoff" and "backoff * 2 \<le> sleep_max"
  shows "attempts tr rq backoff (1 # 2 # 3 # rest) w =
     (Inr (Some body), w\<lparr>sent := sent w @ [rq, rq, rq],
                    sleeps := sleeps w @ [backoff * 1, backoff * 2]\<rparr>)"
proof -
  have one: "sleep backoff w1 = Inr (w1\<lparr>sleeps := sleeps w1 @ [backoff]\<rparr>)" for w1
    using assms(4,5) by (simp add: sleep_ok)
  have two: "sleep (backoff * 2) w1 = Inr (w1\<lparr>sleeps := sleeps w1 @ [backoff * 2]\<rparr>)" for w1
    using assms(4,5) by (simp add: sleep_ok)
  show ?thesis
    using assms(1-3) by (simp add: send_def one two)
qed

text \<open>
  Claim C6. When the transport answers 429 to the first two attempts and 200 to the
  third, and \<open>time.sleep\<close> accepts the two durations (the backoff is not negative and
  its double is within the longest sleep), the call returns the decoded body of the 200
  response after three requests, and it has slept \<open>backoff * 1\<close> and then
  \<open>backoff * 2\<close>, which is strictly increasing for a positive \<open>backoff\<close>.
\<close>

theorem rate_limited_then_success:
  "(3 \<le> retries \<and> 0 \<le> backoff \<and> backoff * 2 \<le> sleep_max
     \<and> tr (length (sent w)) (get_request c path params) = Response 429 b1
     \<and> tr (length (sent w) + 1) (get_request c path params) = Response 429 b2
     \<and> tr (length (sent w) + 2) (get_request c path params) = Response 200 (Some body)
    \<longrightarrow> client_get tr c path params retries backoff w =
          (Inr body, w\<lparr>sent := sent w @ replicate 3 (get_request c path params),
                         sleeps := sleeps w @ [backoff * 1, backoff * 2]\<rparr>))
   \<and> (3 \<le> retries \<and> 0 \<le> backoff \<and> backoff * 2 \<le> sleep_max
     \<and> tr (length (sent w)) (post_request c path json_body) = Response 429 b1
     \<and> tr (length (sent w) + 1) (post_request c path json_body) = Response 429 b2
     \<and> tr (length (sent w) + 2) (post_request c path json_body) = Response 200 (Some body)
    \<longrightarrow> client_post tr c path json_body retries backoff w =
          (Inr body, w\<lparr>sent := sent w @ replicate 3 (post_request c path json_body),
                         sleeps := sleeps w @ [backoff * 1, backoff * 2]\<rparr>))
   \<and> (0 < backoff \<longrightarrow> backoff * 1 < backoff * 2)"
proof (intro conjI impI)
  assume "3 \<le> retries \<and> 0 \<le> backoff \<and> backoff * 2 \<le> sleep_max
     \<and> tr (length (sent w)) (get_request c path params) = Response 429 b1
     \<and> tr (length (sent w) + 1) (get_request c path params) = Response 429 b2
     \<and> tr (length (sent w) + 2) (get_request c path params) = Response 200 (Some body)"
  then have r: "[1..retries] = 1 # 2 # 3 # [4..retries]"
    and a: "attempts tr (get_request c path params) backoff (1 # 2 # 3 # [4..retries]) w =
      (Inr (Some body), w\<lparr>sent := sent w @ [get_request c path params, get_request c path params,
                       get_request c path params],
                     sleeps := sleeps w @ [backoff * 1, backoff * 2]\<rparr>)"
    by (simp_all only: upto_three attempts_429_429_200)
  show "client_get tr c path params retries backoff w =
          (Inr body, w\<lparr>sent := sent w @ replicate 3 (get_request c path params),
                         sleeps := sleeps w @ [backoff * 1, backoff * 2]\<rparr>)"
    unfolding client_get_def r a by (simp add: numeral_3_eq_3)
next
  assume "3 \<le> retries \<and> 0 \<le> backoff \<and> backoff * 2 \<le> sleep_max
     \<and> tr (length (sent w)) (post_request c path json_body) = Response 429 b1
     \<and> tr (length (sent w) + 1) (post_request c path json_body) = Response 429 b2
     \<and> tr (length (sent w) + 2) (post_request c path json_body) = Response 200 (Some body)"
  then have r: "[1..retries] = 1 # 2 # 3 # [4..retries]"
    and a: "attempts tr (post_request c path json_body) backoff (1 # 2 # 3 # [4..retries]) w =
      (Inr (Some body), w\<lparr>sent := sent w @ [post_request c path json_body,
                       post_request c path json_body, post_request c path json_body],
                     sleeps := sleeps w @ [backoff * 1, backoff * 2]\<rparr>)"
    by (simp_all only: upto_three attempts_429_429_200)
  show "client_post tr c path json_body retries backoff w =
          (Inr body, w\<lparr>sent := sent w @ replicate 3 (post_request c path json_body),
                         sleeps := sleeps w @ [backoff * 1, backoff * 2]\<rparr>)"
    unfolding client_post_def r a by (simp add: numeral_3_eq_3)
next
  assume "0 < backoff"
  then show "backoff * 1 < backoff * 2" by simp
qed

text \<open>With \<open>backoff = 1/2\<close> the sleeps are \<open>1/2\<close> and \<open>1\<close>.\<close>

theorem rate_limited_then_success_witness:
  "client_get (\<lambda>n rq. if n < 2 then Response 429 None else Response 200 (Some (JStr ''ok'')))
      \<lparr>api_key = ''k'', base = ''https://h/v1'', headers = [], timeout = 15\<rparr>
      ''/x'' None 3 (1 / 2) \<lparr>sent = [], sleeps = []\<rparr>
    = (Inr (JStr ''ok''),
       \<lparr>sent = replicate 3 (get_request
                 \<lparr>api_key = ''k'', base = ''https://h/v1'', headers = [], timeout = 15\<rparr>
                 ''/x'' None),
        sleeps = [1 / 2, 1]\<rparr>)
   \<and> client_post (\<lambda>n rq. if n < 2 then Response 429 None else Response 200 (Some (JStr ''ok'')))
      \<lparr>api_key = ''k'', base = ''https://h/v1'', headers = [], timeout = 15\<rparr>
      ''/x'' JNull 3 (1 / 2) \<lparr>sent = [], sleeps = []\<rparr>
    = (Inr (JStr ''ok''),
       \<lparr>sent = replicate 3 (post_request
                 \<lparr>api_key = ''k'', base = ''https://h/v1'', headers = [], timeout = 15\<rparr>
                 ''/x'' JNull),
        sleeps = [1 / 2, 1]\<rparr>)
   \<and> (1 / 2 :: rat) * 1 < 1 / 2 * 2"
  using rate_limited_then_success [where retries = 3 and backoff = "1 / 2"
          and tr = "\<lambda>n rq. if n < 2 then Response 429 None else Response 200 (Some (JStr ''ok''))"
          and w = "\<lparr>sent = [], sleeps = []\<rparr>"
          and c = "\<lparr>api_key = ''k'', base = ''https://h/v1'', headers = [], timeout = 15\<rparr>"
          and path = "''/x''" and params = None and ?b1.0 = None and ?b2.0 = None
          and body = "JStr ''ok''" and json_body = JNull]
  by (simp add: sleep_max_def)


lemma dict_has_iff:
  "dict_has data k \<longleftrightarrow> (\<exists>kvs. data = JDict kvs \<and> k \<in> fst ` set kvs)"
  by (cases data) (auto simp: map_of_eq_None_iff)

text \<open>
  Claim C8. When the request layer returns a document that is not a dict with a
  \<open>subdomains\<close> key, \<open>list_subdomains\<close> raises nothing: it returns the empty
  hostname list and the document itself.
\<close>

theorem list_subdomains_unexpected_shape:
  "fst (client_get tr c (''/domain/'' @ domain @ ''/subdomains'') None 3 1 w) = Inr data
   \<and> \<not> (\<exists>kvs. data = JDict kvs \<and> ''subdomains'' \<in> fst ` set kvs)
   \<longrightarrow> list_subdomains tr c domain w =
         (Inr ([], data), snd (client_get tr c (''/domain/'' @ domain @ ''/subdomains'') None 3 1 w))"
proof
  assume h: "fst (client_get tr c (''/domain/'' @ domain @ ''/subdomains'') None 3 1 w) = Inr data
   \<and> \<not> (\<exists>kvs. data = JDict kvs \<and> ''subdomains'' \<in> fst ` set kvs)"
  then have nd: "\<not> dict_has data ''subdomains''"
    by (simp only: dict_has_iff not_False_eq_True)
  obtain r w' where cg: "client_get tr c (''/domain/'' @ domain @ ''/subdomains'') None 3 1 w = (r, w')"
    by (cases "client_get tr c (''/domain/'' @ domain @ ''/subdomains'') None 3 1 w") blast
  with h have "r = Inr data" by simp
  with cg nd show "list_subdomains tr c domain w =
         (Inr ([], data), snd (client_get tr c (''/domain/'' @ domain @ ''/subdomains'') None 3 1 w))"
    by (simp add: list_subdomains_def sorted_set_def)
qed

text \<open>A response that is a bare list, received on the second attempt.\<close>

theorem list_subdomains_unexpected_shape_witness:
  "list_subdomains (\<lambda>n rq. if n = 0 then Failure else Response 200 (Some (JList [JStr ''www''])))
      \<lparr>api_key = ''k'', base = ''https://h/v1'', headers = [], timeout = 15\<rparr>
      ''example.com'' \<lparr>sent = [], sleeps = []\<rparr>
    = (Inr ([], JList [JStr ''www'']),
       \<lparr>sent = replicate 2 (get_request
                 \<lparr>api_key = ''k'', base = ''https://h/v1'', headers = [], timeout = 15\<rparr>
                 ''/domain/example.com/subdomains'' None),
        sleeps = [1]\<rparr>)"
proof -
  have cg: "client_get (\<lambda>n rq. if n = 0 then Failure else Response 200 (Some (JList [JStr ''www''])))
      \<lparr>api_key = ''k'', base = ''https://h/v1'', headers = [], timeout = 15\<rparr>
      ''/domain/example.com/subdomains'' None 3 1 \<lparr>sent = [], sleeps = []\<rparr>
     = (Inr (JList [JStr ''www'']),
       \<lparr>sent = replicate 2 (get_request
                 \<lparr>api_key = ''k'', base = ''https://h/v1'', headers = [], timeout = 15\<rparr>
                 ''/domain/example.com/subdomains'' None),
        sleeps = [1]\<rparr>)"
    by (simp add: client_get_def upto_three send_def sleep_def sleep_max_def numeral_2_eq_2)
  show ?thesis
    using list_subdomains_unexpected_shape [of
          "\<lambda>n rq. if n = 0 then Failure else Response 200 (Some (JList [JStr ''www'']))"
          "\<lparr>api_key = ''k'', base = ''https://h/v1'', headers = [], timeout = 15\<rparr>"
          "''example.com''" "\<lparr>sent = [], sleeps = []\<rparr>" "JList [JStr ''www'']"]
    by (simp add: cg)
qed


subsection \<open>list\_subdomains\<close>


lemma collect_fragments_strings:
  "collect_fragments domain (map JStr frags) subdomains =
     Inr (subdomains @ concat (map (spec_fragment domain) frags))"
  by (induction frags arbitrary: subdomains) (auto simp: spec_fragment_def endswith_def)

lemma upto_from_one: "1 \<le> n \<Longrightarrow> [1..n] = 1 # [2..n]"
  by (simp add: upto_rec1)


lemma client_get_first_200:
  assumes "tr (length (sent w)) (get_request c path params) = Response 200 (Some v)"
    and "1 \<le> retries"
  shows "client_get tr c path params retries backoff w =
           (Inr v, w\<lparr>sent := sent w @ [get_request c path params]\<rparr>)"
  using assms by (simp add: client_get_def upto_from_one send_def)

lemma client_post_first_200:
  assumes "tr (length (sent w)) (post_request c path json_body) = Response 200 (Some v)"
    and "1 \<le> retries"
  shows "client_post tr c path json_body retries backoff w =
           (Inr v, w\<lparr>sent := sent w @ [post_request c path json_body]\<rparr>)"
  using assms by (simp add: client_post_def upto_from_one send_def)

lemma list_subdomains_fragments:
  assumes "client_get tr c (''/domain/'' @ domain @ ''/subdomains'') None 3 1 w = (Inr (JDict kvs), w')"
    and "map_of kvs ''subdomains'' = Some (JList (map JStr frags))"
  shows "list_subdomains tr c domain w =
     (Inr (sorted_set (set (concat (map (spec_fragment domain) frags))), JDict kvs), w')"
  using assms by (simp add: list_subdomains_def collect_fragments_strings)

lemma example_hosts:
  "sorted_set (set (concat (map (spec_fragment ''example.com'') [''www'', ''api.example.com'', ''''])))
     = [''api.example.com'', ''www.example.com'']"
  by code_simp

text \<open>
  Claim C2. When the response is a dict whose \<open>subdomains\<close> field is a list of
  strings, the hostnames returned are the sorted set of the fragments' contributions:
  nothing for an empty fragment, the fragment itself when it ends with the domain, and
  fragment, dot, domain otherwise. For the response
  \<open>{"subdomains": ["www", "api.example.com", ""]}\<close> and the domain \<open>example.com\<close> the
  result is \<open>["api.example.com", "www.example.com"]\<close>.
\<close>

theorem list_subdomains_fragment_rule:
  "(fst (client_get tr c (''/domain/'' @ domain @ ''/subdomains'') None 3 1 w) = Inr (JDict kvs)
      \<and> map_of kvs ''subdomains'' = Some (JList (map JStr frags))
    \<longrightarrow> fst (list_subdomains tr c domain w) =
          Inr (sorted_set (set (concat (map (spec_fragment domain) frags))), JDict kvs))
   \<and> (tr (length (sent w)) (get_request c ''/domain/example.com/subdomains'' None) =
        Response 200 (Some (JDict [(''subdomains'',
          JList [JStr ''www'', JStr ''api.example.com'', JStr ''''])]))
    \<longrightarrow> fst (list_subdomains tr c ''example.com'' w) =
          Inr ([''api.example.com'', ''www.example.com''],
               JDict [(''subdomains'', JList [JStr ''www'', JStr ''api.example.com'', JStr ''''])]))"
proof (intro conjI impI)
  assume h: "fst (client_get tr c (''/domain/'' @ domain @ ''/subdomains'') None 3 1 w) = Inr (JDict kvs)
      \<and> map_of kvs ''subdomains'' = Some (JList (map JStr frags))"
  then have "client_get tr c (''/domain/'' @ domain @ ''/subdomains'') None 3 1 w =
      (Inr (JDict kvs), snd (client_get tr c (''/domain/'' @ domain @ ''/subdomains'') None 3 1 w))"
    by (metis prod.collapse)
  from list_subdomains_fragments [OF this] h
  show "fst (list_subdomains tr c domain w) =
          Inr (sorted_set (set (concat (map (spec_fragment domain) frags))), JDict kvs)"
    by simp
next
  let ?doc = "JDict [(''subdomains'', JList [JStr ''www'', JStr ''api.example.com'', JStr ''''])]"
  assume "tr (length (sent w)) (get_request c ''/domain/example.com/subdomains'' None) =
        Response 200 (Some ?doc)"
  then have cg: "client_get tr c (''/domain/'' @ ''example.com'' @ ''/subdomains'') None 3 1 w =
      (Inr ?doc, w\<lparr>sent := sent w @ [get_request c ''/domain/example.com/subdomains'' None]\<rparr>)"
    by (simp add: client_get_first_200)
  have m: "map_of [(''subdomains'', JList [JStr ''www'', JStr ''api.example.com'', JStr ''''])]
      ''subdomains'' = Some (JList (map JStr [''www'', ''api.example.com'', '''']))"
    by simp
  show "fst (list_subdomains tr c ''example.com'' w) = Inr ([''api.example.com'', ''www.example.com''], ?doc)"
    unfolding list_subdomains_fragments [OF cg m] example_hosts by simp
qed

text \<open>The example of the specification, and a response with a repeated fragment.\<close>

theorem list_subdomains_fragment_rule_witness:
  "fst (list_subdomains
        (\<lambda>n rq. Response 200 (Some (JDict [(''subdomains'',
           JList [JStr ''www'', JStr ''api.example.com'', JStr ''''])])))
        \<lparr>api_key = ''k'', base = ''https://h/v1'', headers = [], timeout = 15\<rparr>
        ''example.com'' \<lparr>sent = [], sleeps = []\<rparr>)
    = Inr ([''api.example.com'', ''www.example.com''],
           JDict [(''subdomains'', JList [JStr ''www'', JStr ''api.example.com'', JStr ''''])])
   \<and> fst (list_subdomains
        (\<lambda>n rq. Response 200 (Some (JDict [(''subdomains'',
           JList [JStr ''mail'', JStr ''mail'', JStr ''a.example.org''])])))
        \<lparr>api_key = ''k'', base = ''https://h/v1'', headers = [], timeout = 15\<rparr>
        ''example.org'' \<lparr>sent = [], sleeps = []\<rparr>)
    = Inr ([''a.example.org'', ''mail.example.org''],
           JDict [(''subdomains'', JList [JStr ''mail'', JStr ''mail'', JStr ''a.example.org''])])"
proof -
  let ?c = "\<lparr>api_key = ''k'', base = ''https://h/v1'', headers = [], timeout = 15\<rparr>"
  let ?w = "\<lparr>sent = [], sleeps = []\<rparr>"
  let ?kvs = "[(''subdomains'', JList [JStr ''mail'', JStr ''mail'', JStr ''a.example.org''])]"
  let ?tr = "\<lambda>(n::nat) (rq::request). Response 200 (Some (JDict ?kvs))"
  let ?tr1 = "\<lambda>(n::nat) (rq::request). Response 200 (Some (JDict [(''subdomains'',
           JList [JStr ''www'', JStr ''api.example.com'', JStr ''''])]))"
  have cg: "fst (client_get ?tr ?c (''/domain/'' @ ''example.org'' @ ''/subdomains'') None 3 1 ?w)
      = Inr (JDict ?kvs)"
    by (simp add: client_get_first_200)
  have m: "map_of ?kvs ''subdomains'' = Some (JList (map JStr [''mail'', ''mail'', ''a.example.org'']))"
    by simp
  have v: "sorted_set (set (concat (map (spec_fragment ''example.org'')
            [''mail'', ''mail'', ''a.example.org''])))
      = [''a.example.org'', ''mail.example.org'']"
    by code_simp
  from list_subdomains_fragment_rule [of ?tr ?c "''example.org''" ?w ?kvs
         "[''mail'', ''mail'', ''a.example.org'']"] cg m v
  have a: "fst (list_subdomains ?tr ?c ''example.org'' ?w)
      = Inr ([''a.example.org'', ''mail.example.org''], JDict ?kvs)"
    by simp
  from list_subdomains_fragment_rule [of ?tr1 ?c "''example.com''" ?w ?kvs
         "[''mail'', ''mail'', ''a.example.org'']"]
  have b: "fst (list_subdomains ?tr1 ?c ''example.com'' ?w)
      = Inr ([''api.example.com'', ''www.example.com''],
           JDict [(''subdomains'', JList [JStr ''www'', JStr ''api.example.com'', JStr ''''])])"
    by simp
  from a b show ?thesis by simp
qed


subsection \<open>search\_subdomains\<close>

lemma wf_record_step:
  "wf_record r \<Longrightarrow>
   \<exists>h. record_hostname r = Inr h \<and>
       add_hostname domain h acc = Inr (acc \<union> set (matching_hosts domain [r]))"
proof (cases r)
  case (JDict kvs)
  assume "wf_record r"
  with JDict have a: "str_or_null (map_of kvs ''hostname'')" and b: "str_or_null (map_of kvs ''domain'')"
    by simp_all
  from a b show ?thesis
    unfolding JDict
    by (cases "(map_of kvs ''hostname'')" rule: str_or_null.cases;
        cases "(map_of kvs ''domain'')" rule: str_or_null.cases)
       (auto simp: record_hostname_def py_or_def matching_hosts_def selected_def endswith_def)
qed simp_all

lemma matching_hosts_Cons:
  "matching_hosts domain (r # rs) = matching_hosts domain [r] @ matching_hosts domain rs"
  by (simp add: matching_hosts_def)

lemma add_records_wf:
  "list_all wf_record rs \<Longrightarrow>
   add_records domain rs acc = Inr (acc \<union> set (matching_hosts domain rs))"
proof (induction rs arbitrary: acc)
  case Nil
  then show ?case by (simp add: matching_hosts_def)
next
  case (Cons r rs)
  then have "wf_record r" and rest: "list_all wf_record rs" by simp_all
  from wf_record_step [OF this(1), of domain acc] obtain h where
    h: "record_hostname r = Inr h"
       "add_hostname domain h acc = Inr (acc \<union> set (matching_hosts domain [r]))"
    by blast
  show ?case
    using h Cons.IH [OF rest] matching_hosts_Cons [of domain r rs]
    by (simp add: Un_assoc)
qed


lemma add_hostname_success:
  "record_hostname r = Inr v \<Longrightarrow> add_hostname domain v acc = Inr acc' \<Longrightarrow>
   acc' = acc \<union> set (matching_hosts domain [r])"
  by (cases v) (auto simp: matching_hosts_def selected_def endswith_def split: if_splits)

lemma add_records_success:
  "add_records domain rs acc = Inr acc' \<Longrightarrow> acc' = acc \<union> set (matching_hosts domain rs)"
proof (induction rs arbitrary: acc)
  case Nil
  then show ?case by (simp add: matching_hosts_def)
next
  case (Cons r rs)
  from Cons.prems obtain v acc1 where
    v: "record_hostname r = Inr v" and a: "add_hostname domain v acc = Inr acc1"
    and rest: "add_records domain rs acc1 = Inr acc'"
    by (auto split: sum.splits)
  from add_hostname_success [OF v a] Cons.IH [OF rest] matching_hosts_Cons [of domain r rs]
  show ?case by (simp add: Un_assoc)
qed

lemma last_page_records:
  "last_page d \<Longrightarrow> dict_get d ''records'' (JList []) = Inr (JList [])"
  by (cases d) (auto simp: last_page_def split: option.splits json.splits)

lemma records_of_last_page: "last_page d \<Longrightarrow> records_of d = []"
  by (simp add: records_of_def last_page_records)

lemma full_page_records:
  "full_page d \<Longrightarrow>
   dict_get d ''records'' (JList []) = Inr (JList (records_of d)) \<and>
   records_of d \<noteq> [] \<and> list_all wf_record (records_of d)"
  by (cases d) (auto simp: full_page_def records_of_def split: option.splits json.splits)

lemma page_step_last:
  assumes "tr (length (sent w)) (page_request c domain page_size p) = Response 200 (Some d)"
    and "last_page d"
  shows "search_pages tr c domain page_size (p # rest) acc raw w =
     (Inr (acc, raw @ [d]), w\<lparr>sent := sent w @ [page_request c domain page_size p]\<rparr>)"
proof -
  have post: "client_post tr c ''/domains/list'' (search_body domain page_size p) 3 1 w =
      (Inr d, w\<lparr>sent := sent w @ [page_request c domain page_size p]\<rparr>)"
    using assms(1) by (simp add: client_post_first_200 page_request_def)
  show ?thesis
    by (simp add: post last_page_records [OF assms(2)])
qed

lemma page_step_full:
  assumes "tr (length (sent w)) (page_request c domain page_size p) = Response 200 (Some d)"
    and "full_page d"
  shows "search_pages tr c domain page_size (p # rest) acc raw w =
     search_pages tr c domain page_size rest
       (acc \<union> set (matching_hosts domain (records_of d))) (raw @ [d])
       (w\<lparr>sent := sent w @ [page_request c domain page_size p],
          sleeps := sleeps w @ [3 / 10]\<rparr>)"
proof -
  have post: "client_post tr c ''/domains/list'' (search_body domain page_size p) 3 1 w =
      (Inr d, w\<lparr>sent := sent w @ [page_request c domain page_size p]\<rparr>)"
    using assms(1) by (simp add: client_post_first_200 page_request_def)
  from full_page_records [OF assms(2)]
  have r: "dict_get d ''records'' (JList []) = Inr (JList (records_of d))"
    and n: "records_of d \<noteq> []" and wf: "list_all wf_record (records_of d)"
    by simp_all
  show ?thesis
    by (simp add: post r n add_records_wf [OF wf] sleep_pause)
qed

lemma matching_hosts_append:
  "matching_hosts domain (rs @ rs') = matching_hosts domain rs @ matching_hosts domain rs'"
  by (simp add: matching_hosts_def)

lemma search_pages_mock:
  assumes "serves tr (length (sent w)) (map (page_request c domain page_size) (ps @ [pk])) (ds @ [dk])"
    and "list_all full_page ds" and "last_page dk"
  shows "search_pages tr c domain page_size (ps @ pk # rest) acc raw w =
     (Inr (acc \<union> set (matching_hosts domain (concat (map records_of ds))), raw @ ds @ [dk]),
      w\<lparr>sent := sent w @ map (page_request c domain page_size) (ps @ [pk]),
        sleeps := sleeps w @ replicate (length ps) (3 / 10)\<rparr>)"
  using assms
proof (induction ps arbitrary: ds acc raw w)
  case Nil
  show ?case
  proof (cases ds)
    case Nil
    with Nil.prems have
      "tr (length (sent w)) (page_request c domain page_size pk) = Response 200 (Some dk)"
      by simp
    from page_step_last [where tr = tr and w = w, OF this Nil.prems(3)] Nil show ?thesis
      by (simp add: matching_hosts_def del: search_pages.simps)
  next
    case (Cons d ds')
    with Nil.prems(1) show ?thesis by (cases ds') simp_all
  qed
next
  case (Cons p ps)
  show ?case
  proof (cases ds)
    case Nil
    with Cons.prems(1) show ?thesis by (cases ps) simp_all
  next
    case (Cons d ds')
    let ?w1 = "w\<lparr>sent := sent w @ [page_request c domain page_size p],
                 sleeps := sleeps w @ [3 / 10]\<rparr>"
    from Cons.prems Cons have
      first: "tr (length (sent w)) (page_request c domain page_size p) = Response 200 (Some d)"
      and later: "serves tr (length (sent ?w1)) (map (page_request c domain page_size) (ps @ [pk])) (ds' @ [dk])"
      and full: "full_page d" and fulls: "list_all full_page ds'"
      by simp_all
    have "search_pages tr c domain page_size ((p # ps) @ pk # rest) acc raw w =
        search_pages tr c domain page_size (ps @ pk # rest)
          (acc \<union> set (matching_hosts domain (records_of d))) (raw @ [d]) ?w1"
      using page_step_full [where tr = tr and w = w, OF first full] by simp
    also have "\<dots> =
       (Inr (acc \<union> set (matching_hosts domain (records_of d))
               \<union> set (matching_hosts domain (concat (map records_of ds'))),
             (raw @ [d]) @ ds' @ [dk]),
        ?w1\<lparr>sent := sent ?w1 @ map (page_request c domain page_size) (ps @ [pk]),
            sleeps := sleeps ?w1 @ replicate (length ps) (3 / 10)\<rparr>)"
      by (rule Cons.IH [OF later fulls Cons.prems(3)])
    finally show ?thesis
      by (simp add: Cons matching_hosts_append Un_assoc replicate_append_same)
  qed
qed

lemma upto_split_last: "0 \<le> n \<Longrightarrow> n < m \<Longrightarrow> [1..m] = [1..n] @ (n + 1) # [n + 2..m]"
  using upto_split2 [of 1 "n + 1" m] upto_rec2 [of 1 "n + 1"] upto_rec1 [of "n + 1" m]
  by (simp add: add.commute)

lemma search_subdomains_mock:
  assumes "int (length ds) < max_pages"
    and "serves tr (length (sent w))
           (map (page_request c domain page_size) [1..int (length ds) + 1]) (ds @ [dk])"
    and "list_all full_page ds" and "last_page dk"
  shows "search_subdomains tr c domain page_size max_pages w =
     (Inr (sorted_set (set (matching_hosts domain (concat (map records_of ds)))),
           JDict [(''pages'', JList (ds @ [dk]))]),
      w\<lparr>sent := sent w @ map (page_request c domain page_size) [1..int (length ds) + 1],
        sleeps := sleeps w @ replicate (length ds) (3 / 10)\<rparr>)"
proof -
  let ?n = "int (length ds)"
  have u: "[1..max_pages] = [1..?n] @ (?n + 1) # [?n + 2..max_pages]"
    using assms(1) by (intro upto_split_last) simp_all
  have v: "[1..?n + 1] = [1..?n] @ [?n + 1]"
    using upto_rec2 [of 1 "?n + 1"] by simp
  have l: "length [1..?n] = length ds" by simp
  show ?thesis
    unfolding search_subdomains_def u
    using search_pages_mock [of tr w c domain page_size "[1..?n]" "?n + 1" ds dk
            "[?n + 2..max_pages]" "{}" "[]"] assms(2-4)
    by (simp add: v)
qed


lemma attempts_world:
  "snd (attempts tr rq backoff (a # as) w) = w\<lparr>sent := sent w @ [rq]\<rparr>
   \<or> (\<exists>w2. sent w2 = sent w @ [rq] \<and>
         snd (attempts tr rq backoff (a # as) w) = snd (attempts tr rq backoff as w2))"
proof -
  let ?w1 = "w\<lparr>sent := sent w @ [rq]\<rparr>"
  show ?thesis
  proof (cases "sleep (backoff * of_int a) ?w1")
    case (Inl e)
    then show ?thesis
      by (cases "tr (length (sent w)) rq")
         (auto simp: send_def split: option.splits intro: exI [of _ ?w1])
  next
    case (Inr w2)
    then have "sent w2 = sent w @ [rq]" by (auto dest: sleep_Inr)
    with Inr show ?thesis
      by (cases "tr (length (sent w)) rq")
         (auto simp: send_def split: option.splits intro: exI [of _ ?w1])
  qed
qed

lemma attempts_sent:
  "\<exists>k\<le>length as. sent (snd (attempts tr rq backoff as w)) = sent w @ replicate k rq"
proof (induction as arbitrary: w)
  case Nil
  then show ?case by simp
next
  case (Cons a as)
  from attempts_world [of tr rq backoff a as w]
  consider "snd (attempts tr rq backoff (a # as) w) = w\<lparr>sent := sent w @ [rq]\<rparr>"
    | w2 where "sent w2 = sent w @ [rq]"
        "snd (attempts tr rq backoff (a # as) w) = snd (attempts tr rq backoff as w2)"
    by blast
  then show ?case
  proof cases
    case 1
    then have "1 \<le> length (a # as) \<and>
        sent (snd (attempts tr rq backoff (a # as) w)) = sent w @ replicate 1 rq"
      by simp
    then show ?thesis by blast
  next
    case 2
    from Cons.IH [of w2] obtain k where
      "k \<le> length as" "sent (snd (attempts tr rq backoff as w2)) = sent w2 @ replicate k rq"
      by blast
    with 2 have "Suc k \<le> length (a # as) \<and>
        sent (snd (attempts tr rq backoff (a # as) w)) = sent w @ replicate (Suc k) rq"
      by (simp add: replicate_append_same)
    then show ?thesis by blast
  qed
qed

lemma client_post_sent:
  "\<exists>k\<le>3. sent (snd (client_post tr c path json_body 3 backoff w)) =
      sent w @ replicate k (post_request c path json_body)"
  using attempts_sent [of "[1..3]" tr "post_request c path json_body" backoff w]
  by (simp add: client_post_alt)

lemma search_pages_world:
  "snd (search_pages tr c domain page_size (p # ps) acc raw w) =
     snd (client_post tr c ''/domains/list'' (search_body domain page_size p) 3 1 w)
   \<or> (\<exists>acc' raw'. snd (search_pages tr c domain page_size (p # ps) acc raw w) =
        snd (search_pages tr c domain page_size ps acc' raw'
          ((snd (client_post tr c ''/domains/list'' (search_body domain page_size p) 3 1 w))
             \<lparr>sleeps :=
                sleeps (snd (client_post tr c ''/domains/list''
                              (search_body domain page_size p) 3 1 w)) @ [3 / 10]\<rparr>)))"
  by (auto simp: sleep_pause split: prod.splits sum.splits)

lemma search_pages_sent:
  assumes "\<And>p w. \<exists>k\<le>m.
      sent (snd (client_post tr c ''/domains/list'' (search_body domain page_size p) 3 1 w)) =
        sent w @ replicate k (page_request c domain page_size p)"
  shows "\<exists>new. sent (snd (search_pages tr c domain page_size ps acc raw w)) = sent w @ new
           \<and> length new \<le> m * length ps
           \<and> set new \<subseteq> page_request c domain page_size ` set ps"
proof (induction ps arbitrary: acc raw w)
  case Nil
  then show ?case by simp
next
  case (Cons p ps)
  let ?w1 = "snd (client_post tr c ''/domains/list'' (search_body domain page_size p) 3 1 w)"
  from assms [of p w] obtain k where k: "k \<le> m"
    "sent ?w1 = sent w @ replicate k (page_request c domain page_size p)"
    by blast
  from search_pages_world [of tr c domain page_size p ps acc raw w]
  consider "snd (search_pages tr c domain page_size (p # ps) acc raw w) = ?w1"
    | acc' raw' where
        "snd (search_pages tr c domain page_size (p # ps) acc raw w) =
           snd (search_pages tr c domain page_size ps acc' raw'
                 (?w1\<lparr>sleeps := sleeps ?w1 @ [3 / 10]\<rparr>))"
    by blast
  then show ?case
  proof cases
    case 1
    have "sent (snd (search_pages tr c domain page_size (p # ps) acc raw w)) =
        sent w @ replicate k (page_request c domain page_size p)
      \<and> length (replicate k (page_request c domain page_size p)) \<le> m * length (p # ps)
      \<and> set (replicate k (page_request c domain page_size p))
          \<subseteq> page_request c domain page_size ` set (p # ps)"
      using 1 k by (auto simp: trans_le_add1)
    then show ?thesis by blast
  next
    case 2
    let ?w2 = "?w1\<lparr>sleeps := sleeps ?w1 @ [3 / 10]\<rparr>"
    from Cons.IH [of acc' raw' ?w2] obtain new where new:
      "sent (snd (search_pages tr c domain page_size ps acc' raw' ?w2)) = sent ?w2 @ new"
      "length new \<le> m * length ps"
      "set new \<subseteq> page_request c domain page_size ` set ps"
      by blast
    have "sent (snd (search_pages tr c domain page_size (p # ps) acc raw w)) =
        sent w @ (replicate k (page_request c domain page_size p) @ new)
      \<and> length (replicate k (page_request c domain page_size p) @ new) \<le> m * length (p # ps)
      \<and> set (replicate k (page_request c domain page_size p) @ new)
          \<subseteq> page_request c domain page_size ` set (p # ps)"
      using 2 k new by (auto simp: add_mono)
    then show ?thesis by blast
  qed
qed

lemma sent_search_subdomains:
  "sent (snd (search_subdomains tr c domain page_size max_pages w)) =
   sent (snd (search_pages tr c domain page_size [1..max_pages] {} [] w))"
  by (simp add: search_subdomains_def split: prod.splits sum.splits)

lemma search_subdomains_bound:
  "\<exists>new. sent (snd (search_subdomains tr c domain page_size max_pages w)) = sent w @ new
      \<and> set new \<subseteq> page_request c domain page_size ` {1..max_pages}
      \<and> length new \<le> 3 * nat max_pages"
  using search_pages_sent [of 3 tr c domain page_size "[1..max_pages]" "{}" "[]" w]
    client_post_sent [of tr c "''/domains/list''"]
  by (auto simp: sent_search_subdomains page_request_def)

lemma search_subdomains_bound_no_retry:
  assumes "\<And>n rq. \<exists>v. tr n rq = Response 200 (Some v)"
  shows "\<exists>new. sent (snd (search_subdomains tr c domain page_size max_pages w)) = sent w @ new
      \<and> set new \<subseteq> page_request c domain page_size ` {1..max_pages}
      \<and> length new \<le> nat max_pages"
proof -
  have "\<exists>k\<le>1.
      sent (snd (client_post tr c ''/domains/list'' (search_body domain page_size p) 3 1 w)) =
        sent w @ replicate k (page_request c domain page_size p)" for p w
  proof -
    from assms obtain v where
      "tr (length (sent w)) (post_request c ''/domains/list'' (search_body domain page_size p))
         = Response 200 (Some v)"
      by blast
    then have "sent (snd (client_post tr c ''/domains/list'' (search_body domain page_size p) 3 1 w)) =
        sent w @ replicate 1 (page_request c domain page_size p)"
      by (simp add: client_post_first_200 page_request_def)
    then show ?thesis by blast
  qed
  from search_pages_sent [of 1 tr c domain page_size "[1..max_pages]" "{}" "[]" w, OF this]
  show ?thesis
    by (auto simp: sent_search_subdomains)
qed

lemma search_pages_all_full:
  assumes "serves tr (length (sent w)) (map (page_request c domain page_size) ps) ds"
    and "list_all full_page ds"
  shows "search_pages tr c domain page_size ps acc raw w =
     (Inr (acc \<union> set (matching_hosts domain (concat (map records_of ds))), raw @ ds),
      w\<lparr>sent := sent w @ map (page_request c domain page_size) ps,
        sleeps := sleeps w @ replicate (length ps) (3 / 10)\<rparr>)"
  using assms
proof (induction ps arbitrary: ds acc raw w)
  case Nil
  then show ?case by (cases ds) (simp_all add: matching_hosts_def)
next
  case (Cons p ps)
  show ?case
  proof (cases ds)
    case Nil
    with Cons.prems(1) show ?thesis by simp
  next
    case (Cons d ds')
    let ?w1 = "w\<lparr>sent := sent w @ [page_request c domain page_size p],
                 sleeps := sleeps w @ [3 / 10]\<rparr>"
    from Cons.prems Cons have
      first: "tr (length (sent w)) (page_request c domain page_size p) = Response 200 (Some d)"
      and later: "serves tr (length (sent ?w1)) (map (page_request c domain page_size) ps) ds'"
      and full: "full_page d" and fulls: "list_all full_page ds'"
      by simp_all
    have "search_pages tr c domain page_size (p # ps) acc raw w =
        search_pages tr c domain page_size ps
          (acc \<union> set (matching_hosts domain (records_of d))) (raw @ [d]) ?w1"
      by (rule page_step_full [where tr = tr and w = w, OF first full])
    also have "\<dots> =
       (Inr (acc \<union> set (matching_hosts domain (records_of d))
               \<union> set (matching_hosts domain (concat (map records_of ds'))),
             (raw @ [d]) @ ds'),
        ?w1\<lparr>sent := sent ?w1 @ map (page_request c domain page_size) ps,
            sleeps := sleeps ?w1 @ replicate (length ps) (3 / 10)\<rparr>)"
      by (rule Cons.IH [OF later fulls])
    finally show ?thesis
      by (simp add: Cons matching_hosts_append Un_assoc replicate_append_same)
  qed
qed

lemma search_subdomains_full_run:
  assumes "serves tr (length (sent w)) (map (page_request c domain page_size) [1..max_pages]) ds"
    and "list_all full_page ds"
  shows "search_subdomains tr c domain page_size max_pages w =
     (Inr (sorted_set (set (matching_hosts domain (concat (map records_of ds)))),
           JDict [(''pages'', JList ds)]),
      w\<lparr>sent := sent w @ map (page_request c domain page_size) [1..max_pages],
        sleeps := sleeps w @ replicate (nat max_pages) (3 / 10)\<rparr>)"
  unfolding search_subdomains_def
  using search_pages_all_full [where tr = tr and w = w, OF assms, of "{}" "[]"]
  by simp

lemma search_pages_step_success:
  assumes "search_pages tr c domain page_size (p # ps) acc raw w = (Inr (acc', raw'), w')"
  shows "(\<exists>resp. acc' = acc \<union> set (matching_hosts domain (records_of resp))
            \<and> raw' = raw @ [resp])
       \<or> (\<exists>resp w2. search_pages tr c domain page_size ps
            (acc \<union> set (matching_hosts domain (records_of resp))) (raw @ [resp]) w2
              = (Inr (acc', raw'), w'))"
proof -
  from assms obtain resp w1 records rs acc1 where
    post: "client_post tr c ''/domains/list'' (search_body domain page_size p) 3 1 w = (Inr resp, w1)"
    and recs: "dict_get resp ''records'' (JList []) = Inr records"
    and iter: "py_iter records = Inr rs"
    and added: "add_records domain rs acc = Inr acc1"
    by (auto split: prod.splits sum.splits)
  have ro: "records_of resp = rs"
    by (simp add: records_of_def recs iter)
  have acc1: "acc1 = acc \<union> set (matching_hosts domain (records_of resp))"
    using add_records_success [OF added] ro by simp
  show ?thesis
  proof (cases "truthy records")
    case False
    with assms post recs iter added have "acc' = acc1" "raw' = raw @ [resp]"
      by simp_all
    with acc1 show ?thesis by blast
  next
    case True
    with assms post recs iter added have
      "search_pages tr c domain page_size ps acc1 (raw @ [resp])
         (w1\<lparr>sleeps := sleeps w1 @ [3 / 10]\<rparr>) = (Inr (acc', raw'), w')"
      by (simp add: sleep_pause)
    with acc1 show ?thesis by blast
  qed
qed

lemma search_pages_success:
  "search_pages tr c domain page_size ps acc raw w = (Inr (acc', raw'), w') \<Longrightarrow>
   \<exists>new. raw' = raw @ new \<and> length new \<le> length ps
     \<and> acc' = acc \<union> set (matching_hosts domain (concat (map records_of new)))"
proof (induction ps arbitrary: acc raw w)
  case Nil
  then have "raw' = raw @ [] \<and> length ([]::json list) \<le> length ([]::int list)
     \<and> acc' = acc \<union> set (matching_hosts domain (concat (map records_of [])))"
    by (simp add: matching_hosts_def)
  then show ?case by blast
next
  case (Cons p ps)
  from search_pages_step_success [OF Cons.prems]
  consider resp where "acc' = acc \<union> set (matching_hosts domain (records_of resp))"
      "raw' = raw @ [resp]"
    | resp w2 where "search_pages tr c domain page_size ps
        (acc \<union> set (matching_hosts domain (records_of resp))) (raw @ [resp]) w2
          = (Inr (acc', raw'), w')"
    by blast
  then show ?case
  proof cases
    case 1
    then have "raw' = raw @ [resp] \<and> length [resp] \<le> length (p # ps)
       \<and> acc' = acc \<union> set (matching_hosts domain (concat (map records_of [resp])))"
      by simp
    then show ?thesis by blast
  next
    case 2
    from Cons.IH [OF 2] obtain new where
      "raw' = (raw @ [resp]) @ new" "length new \<le> length ps"
      "acc' = acc \<union> set (matching_hosts domain (records_of resp))
                \<union> set (matching_hosts domain (concat (map records_of new)))"
      by blast
    then have "raw' = raw @ (resp # new) \<and> length (resp # new) \<le> length (p # ps)
       \<and> acc' = acc \<union> set (matching_hosts domain (concat (map records_of (resp # new))))"
      by (simp add: matching_hosts_append Un_assoc)
    then show ?thesis by blast
  qed
qed

lemma search_subdomains_success:
  assumes "fst (search_subdomains tr c domain page_size max_pages w) = Inr (hosts, pages)"
  shows "\<exists>raw. pages = JDict [(''pages'', JList raw)] \<and> length raw \<le> nat max_pages
     \<and> hosts = sorted_set (set (matching_hosts domain (concat (map records_of raw))))"
proof -
  obtain r w' where sp: "search_pages tr c domain page_size [1..max_pages] {} [] w = (r, w')"
    by (cases "search_pages tr c domain page_size [1..max_pages] {} [] w") blast
  with assms obtain acc' raw' where r: "r = Inr (acc', raw')"
    and h: "hosts = sorted_set acc'" and p: "pages = JDict [(''pages'', JList raw')]"
    by (auto simp: search_subdomains_def split: sum.splits prod.splits)
  from search_pages_success [OF sp [unfolded r]] obtain new where
    "raw' = new" "length new \<le> length [1..max_pages]"
    "acc' = set (matching_hosts domain (concat (map records_of new)))"
    by auto
  with h p have "pages = JDict [(''pages'', JList raw')] \<and> length raw' \<le> nat max_pages
     \<and> hosts = sorted_set (set (matching_hosts domain (concat (map records_of raw'))))"
    by simp
  then show ?thesis by blast
qed

text \<open>
  The record with hostname \<open>evil-example.com\<close> is kept when searching for
  \<open>example.com\<close>: the suffix test is true on it.
\<close>

theorem suffix_filter_counterexample:
  "fst (search_subdomains evil_transport demo_client ''example.com'' 100 10 fresh_world)
     = Inr ([''api.example.com'', ''evil-example.com''],
            JDict [(''pages'', JList [page_evil, page_end])])
   \<and> endswith ''evil-example.com'' ''example.com''"
  by code_simp

lemma set_matching_hosts:
  "h \<in> set (matching_hosts domain rs) \<longleftrightarrow>
     h \<noteq> [] \<and> suffix domain h \<and> (\<exists>r\<in>set rs. record_hostname r = Inr (JStr h))"
proof -
  have "h \<in> set (selected r) \<longleftrightarrow> record_hostname r = Inr (JStr h)" for r
    by (auto simp: selected_def split: sum.splits json.splits)
  then show ?thesis
    by (auto simp: matching_hosts_def)
qed

text \<open>
  Claim C1, amended. Whenever the search returns, for any transport, any retries and any
  \<open>max_pages\<close>, the hostnames it returns are the sorted set of the selected hostnames,
  over the records of the pages it returns, that are non-empty and end with the target
  domain. It does return, with exactly those hostnames, when well-formed full pages are
  served at the first attempt and either an empty page follows before \<open>max_pages\<close> or
  \<open>max_pages\<close> pages are served. A hostname is in the result if and only if it is
  non-empty, ends with the domain and is the selected hostname of some record. There is
  no label-boundary check: \<open>evil-example.com\<close> is kept for \<open>example.com\<close>, as
  \<open>api.example.com\<close> is.
\<close>

theorem search_suffix_filter:
  "(fst (search_subdomains tr c domain page_size max_pages w) = Inr (hosts, pages)
    \<longrightarrow> (\<exists>raw. pages = JDict [(''pages'', JList raw)] \<and> length raw \<le> nat max_pages
          \<and> hosts = sorted_set (set (matching_hosts domain (concat (map records_of raw))))))
   \<and> (int (length ds) < max_pages
      \<and> serves tr (length (sent w))
           (map (page_request c domain page_size) [1..int (length ds) + 1]) (ds @ [dk])
      \<and> list_all full_page ds \<and> last_page dk
    \<longrightarrow> fst (search_subdomains tr c domain page_size max_pages w) =
          Inr (sorted_set (set (matching_hosts domain (concat (map records_of ds)))),
               JDict [(''pages'', JList (ds @ [dk]))]))
   \<and> (serves tr (length (sent w)) (map (page_request c domain page_size) [1..max_pages]) ds
      \<and> list_all full_page ds
    \<longrightarrow> fst (search_subdomains tr c domain page_size max_pages w) =
          Inr (sorted_set (set (matching_hosts domain (concat (map records_of ds)))),
               JDict [(''pages'', JList ds)]))
   \<and> (h \<in> set (sorted_set (set (matching_hosts domain rs))) \<longleftrightarrow>
        h \<noteq> [] \<and> suffix domain h \<and> (\<exists>r\<in>set rs. record_hostname r = Inr (JStr h)))"
proof (intro conjI impI)
  assume "fst (search_subdomains tr c domain page_size max_pages w) = Inr (hosts, pages)"
  then show "\<exists>raw. pages = JDict [(''pages'', JList raw)] \<and> length raw \<le> nat max_pages
          \<and> hosts = sorted_set (set (matching_hosts domain (concat (map records_of raw))))"
    by (rule search_subdomains_success)
next
  assume "int (length ds) < max_pages
      \<and> serves tr (length (sent w))
           (map (page_request c domain page_size) [1..int (length ds) + 1]) (ds @ [dk])
      \<and> list_all full_page ds \<and> last_page dk"
  then have "search_subdomains tr c domain page_size max_pages w =
     (Inr (sorted_set (set (matching_hosts domain (concat (map records_of ds)))),
           JDict [(''pages'', JList (ds @ [dk]))]),
      w\<lparr>sent := sent w @ map (page_request c domain page_size) [1..int (length ds) + 1],
        sleeps := sleeps w @ replicate (length ds) (3 / 10)\<rparr>)"
    by (intro search_subdomains_mock) simp_all
  then show "fst (search_subdomains tr c domain page_size max_pages w) =
          Inr (sorted_set (set (matching_hosts domain (concat (map records_of ds)))),
               JDict [(''pages'', JList (ds @ [dk]))])"
    by simp
next
  assume "serves tr (length (sent w)) (map (page_request c domain page_size) [1..max_pages]) ds
      \<and> list_all full_page ds"
  then have "search_subdomains tr c domain page_size max_pages w =
     (Inr (sorted_set (set (matching_hosts domain (concat (map records_of ds)))),
           JDict [(''pages'', JList ds)]),
      w\<lparr>sent := sent w @ map (page_request c domain page_size) [1..max_pages],
        sleeps := sleeps w @ replicate (nat max_pages) (3 / 10)\<rparr>)"
    by (intro search_subdomains_full_run) simp_all
  then show "fst (search_subdomains tr c domain page_size max_pages w) =
          Inr (sorted_set (set (matching_hosts domain (concat (map records_of ds)))),
               JDict [(''pages'', JList ds)])"
    by simp
next
  show "h \<in> set (sorted_set (set (matching_hosts domain rs))) \<longleftrightarrow>
        h \<noteq> [] \<and> suffix domain h \<and> (\<exists>r\<in>set rs. record_hostname r = Inr (JStr h))"
    by (simp add: sorted_set_def set_matching_hosts)
qed

text \<open>
  One page with \<open>evil-example.com\<close>, \<open>api.example.com\<close> and \<open>example.org\<close>: the
  first two are returned and the third is not, whether an empty page follows, or
  \<open>max_pages = 1\<close> ends the run, or the page only comes at the second attempt.
\<close>

theorem search_suffix_filter_witness:
  "fst (search_subdomains evil_transport demo_client ''example.com'' 100 10 fresh_world)
     = Inr ([''api.example.com'', ''evil-example.com''],
            JDict [(''pages'', JList [page_evil, page_end])])
   \<and> fst (search_subdomains evil_transport demo_client ''example.com'' 100 1 fresh_world)
     = Inr ([''api.example.com'', ''evil-example.com''], JDict [(''pages'', JList [page_evil])])
   \<and> fst (search_subdomains retried_evil_transport demo_client ''example.com'' 100 1 fresh_world)
     = Inr (sorted_set (set (matching_hosts ''example.com'' (concat (map records_of [page_evil])))),
            JDict [(''pages'', JList [page_evil])])
   \<and> ''evil-example.com'' \<in> set (sorted_set (set (matching_hosts ''example.com'' (records_of page_evil))))
   \<and> ''example.org'' \<notin> set (sorted_set (set (matching_hosts ''example.com'' (records_of page_evil))))"
proof -
  have h: "int (length [page_evil]) < 10
      \<and> serves evil_transport (length (sent fresh_world))
           (map (page_request demo_client ''example.com'' 100) [1..int (length [page_evil]) + 1])
           ([page_evil] @ [page_end])
      \<and> list_all full_page [page_evil] \<and> last_page page_end"
    by code_simp
  have h1: "serves evil_transport (length (sent fresh_world))
           (map (page_request demo_client ''example.com'' 100) [1..1]) [page_evil]
      \<and> list_all full_page [page_evil]"
    by code_simp
  have run: "fst (search_subdomains retried_evil_transport demo_client ''example.com'' 100 1
                fresh_world)
      = Inr ([''api.example.com'', ''evil-example.com''], JDict [(''pages'', JList [page_evil])])"
    by code_simp
  have v: "sorted_set (set (matching_hosts ''example.com'' (concat (map records_of [page_evil]))))
      = [''api.example.com'', ''evil-example.com'']"
    by code_simp
  have s: "suffix ''example.com'' ''evil-example.com''" "\<not> suffix ''example.com'' ''example.org''"
    by code_simp+
  have r: "records_of page_evil = [JDict [(''hostname'', JStr ''evil-example.com'')],
            JDict [(''hostname'', JStr ''api.example.com'')],
            JDict [(''hostname'', JStr ''example.org'')]]"
    by (simp add: records_of_def)
  note t = search_suffix_filter [where c = demo_client and domain = "''example.com''"
      and page_size = 100 and w = fresh_world and rs = "records_of page_evil"]
  from t [where tr = evil_transport and max_pages = 10 and ds = "[page_evil]" and dk = page_end
          and h = "''evil-example.com''",
          THEN conjunct2, THEN conjunct1, THEN mp, OF h]
  have a: "fst (search_subdomains evil_transport demo_client ''example.com'' 100 10 fresh_world)
     = Inr ([''api.example.com'', ''evil-example.com''],
            JDict [(''pages'', JList [page_evil, page_end])])"
    by (simp only: v append.simps)
  from t [where tr = evil_transport and max_pages = 1 and ds = "[page_evil]"
          and h = "''evil-example.com''",
          THEN conjunct2, THEN conjunct2, THEN conjunct1, THEN mp, OF h1]
  have b: "fst (search_subdomains evil_transport demo_client ''example.com'' 100 1 fresh_world)
     = Inr ([''api.example.com'', ''evil-example.com''], JDict [(''pages'', JList [page_evil])])"
    by (simp only: v)
  from t [where tr = retried_evil_transport and max_pages = 1 and h = "''evil-example.com''",
          THEN conjunct1, THEN mp, OF run]
  have "[''api.example.com'', ''evil-example.com''] =
      sorted_set (set (matching_hosts ''example.com'' (concat (map records_of [page_evil]))))"
    by auto
  with run have c: "fst (search_subdomains retried_evil_transport demo_client ''example.com'' 100 1
                fresh_world)
     = Inr (sorted_set (set (matching_hosts ''example.com'' (concat (map records_of [page_evil])))),
            JDict [(''pages'', JList [page_evil])])"
    by simp
  from t [where h = "''evil-example.com''", THEN conjunct2, THEN conjunct2, THEN conjunct2] s
  have d: "''evil-example.com'' \<in> set (sorted_set (set (matching_hosts ''example.com'' (records_of page_evil))))"
    by (simp add: r record_hostname_def py_or_def)
  from t [where h = "''example.org''", THEN conjunct2, THEN conjunct2, THEN conjunct2] s
  have e: "''example.org'' \<notin> set (sorted_set (set (matching_hosts ''example.com'' (records_of page_evil))))"
    by simp
  from a b c d e show ?thesis by blast
qed

text \<open>
  Claim C4. When the first pages are full and the next one has no record, each served at
  the first attempt, the search posts exactly one request per page up to and including
  the empty page and returns those pages, whatever larger \<open>max_pages\<close> is; with
  the empty page in third place that is exactly three requests. In every run, the
  requests issued are page requests for pages \<open>1\<close> to \<open>max_pages\<close>, at most
  three attempts each, and at most \<open>max_pages\<close> requests in all when every reply is
  a decodable 200.
\<close>

theorem search_pagination:
  "(int (length ds) < max_pages
      \<and> serves tr (length (sent w))
           (map (page_request c domain page_size) [1..int (length ds) + 1]) (ds @ [dk])
      \<and> list_all full_page ds \<and> last_page dk
    \<longrightarrow> sent (snd (search_subdomains tr c domain page_size max_pages w)) =
          sent w @ map (page_request c domain page_size) [1..int (length ds) + 1]
        \<and> (\<exists>hosts. fst (search_subdomains tr c domain page_size max_pages w) =
              Inr (hosts, JDict [(''pages'', JList (ds @ [dk]))])))
   \<and> (3 \<le> max_pages
      \<and> serves tr (length (sent w)) (map (page_request c domain page_size) [1, 2, 3]) [d1, d2, d3]
      \<and> full_page d1 \<and> full_page d2 \<and> last_page d3
    \<longrightarrow> sent (snd (search_subdomains tr c domain page_size max_pages w)) =
          sent w @ map (page_request c domain page_size) [1, 2, 3]
        \<and> (\<exists>hosts. fst (search_subdomains tr c domain page_size max_pages w) =
              Inr (hosts, JDict [(''pages'', JList [d1, d2, d3])])))
   \<and> (\<exists>new. sent (snd (search_subdomains tr c domain page_size max_pages w)) = sent w @ new
        \<and> set new \<subseteq> page_request c domain page_size ` {1..max_pages}
        \<and> length new \<le> 3 * nat max_pages
        \<and> ((\<forall>n rq. \<exists>v. tr n rq = Response 200 (Some v)) \<longrightarrow> length new \<le> nat max_pages))"
proof (intro conjI)
  show "int (length ds) < max_pages
      \<and> serves tr (length (sent w))
           (map (page_request c domain page_size) [1..int (length ds) + 1]) (ds @ [dk])
      \<and> list_all full_page ds \<and> last_page dk
    \<longrightarrow> sent (snd (search_subdomains tr c domain page_size max_pages w)) =
          sent w @ map (page_request c domain page_size) [1..int (length ds) + 1]
        \<and> (\<exists>hosts. fst (search_subdomains tr c domain page_size max_pages w) =
              Inr (hosts, JDict [(''pages'', JList (ds @ [dk]))]))"
  proof
    assume "int (length ds) < max_pages
      \<and> serves tr (length (sent w))
           (map (page_request c domain page_size) [1..int (length ds) + 1]) (ds @ [dk])
      \<and> list_all full_page ds \<and> last_page dk"
    then have "search_subdomains tr c domain page_size max_pages w =
       (Inr (sorted_set (set (matching_hosts domain (concat (map records_of ds)))),
             JDict [(''pages'', JList (ds @ [dk]))]),
        w\<lparr>sent := sent w @ map (page_request c domain page_size) [1..int (length ds) + 1],
          sleeps := sleeps w @ replicate (length ds) (3 / 10)\<rparr>)"
      by (intro search_subdomains_mock) simp_all
    then show "sent (snd (search_subdomains tr c domain page_size max_pages w)) =
          sent w @ map (page_request c domain page_size) [1..int (length ds) + 1]
        \<and> (\<exists>hosts. fst (search_subdomains tr c domain page_size max_pages w) =
              Inr (hosts, JDict [(''pages'', JList (ds @ [dk]))]))"
      by simp
  qed
next
  show "3 \<le> max_pages
      \<and> serves tr (length (sent w)) (map (page_request c domain page_size) [1, 2, 3]) [d1, d2, d3]
      \<and> full_page d1 \<and> full_page d2 \<and> last_page d3
    \<longrightarrow> sent (snd (search_subdomains tr c domain page_size max_pages w)) =
          sent w @ map (page_request c domain page_size) [1, 2, 3]
        \<and> (\<exists>hosts. fst (search_subdomains tr c domain page_size max_pages w) =
              Inr (hosts, JDict [(''pages'', JList [d1, d2, d3])]))"
  proof
    assume a: "3 \<le> max_pages
      \<and> serves tr (length (sent w)) (map (page_request c domain page_size) [1, 2, 3]) [d1, d2, d3]
      \<and> full_page d1 \<and> full_page d2 \<and> last_page d3"
    have u: "[1..int (length [d1, d2]) + 1] = [1, 2, 3]"
      by (simp add: upto_rec1)
    have "search_subdomains tr c domain page_size max_pages w =
       (Inr (sorted_set (set (matching_hosts domain (concat (map records_of [d1, d2])))),
             JDict [(''pages'', JList ([d1, d2] @ [d3]))]),
        w\<lparr>sent := sent w @ map (page_request c domain page_size) [1..int (length [d1, d2]) + 1],
          sleeps := sleeps w @ replicate (length [d1, d2]) (3 / 10)\<rparr>)"
    proof (rule search_subdomains_mock)
      show "int (length [d1, d2]) < max_pages" using a by simp
      show "serves tr (length (sent w))
         (map (page_request c domain page_size) [1..int (length [d1, d2]) + 1]) ([d1, d2] @ [d3])"
        unfolding u using a by simp
      show "list_all full_page [d1, d2]" using a by simp
      show "last_page d3" using a by simp
    qed
    then show "sent (snd (search_subdomains tr c domain page_size max_pages w)) =
          sent w @ map (page_request c domain page_size) [1, 2, 3]
        \<and> (\<exists>hosts. fst (search_subdomains tr c domain page_size max_pages w) =
              Inr (hosts, JDict [(''pages'', JList [d1, d2, d3])]))"
      unfolding u by simp
  qed
next
  from search_subdomains_bound [of tr c domain page_size max_pages w] obtain new where new:
    "sent (snd (search_subdomains tr c domain page_size max_pages w)) = sent w @ new"
    "set new \<subseteq> page_request c domain page_size ` {1..max_pages}"
    "length new \<le> 3 * nat max_pages"
    by blast
  have "length new \<le> nat max_pages" if "\<forall>n rq. \<exists>v. tr n rq = Response 200 (Some v)"
  proof -
    from that have "\<And>n rq. \<exists>v. tr n rq = Response 200 (Some v)" by blast
    from search_subdomains_bound_no_retry [of tr c domain page_size max_pages w, OF this]
    obtain new' where
      "sent (snd (search_subdomains tr c domain page_size max_pages w)) = sent w @ new'"
      "length new' \<le> nat max_pages"
      by blast
    with new(1) show ?thesis by simp
  qed
  with new show "\<exists>new. sent (snd (search_subdomains tr c domain page_size max_pages w)) = sent w @ new
        \<and> set new \<subseteq> page_request c domain page_size ` {1..max_pages}
        \<and> length new \<le> 3 * nat max_pages
        \<and> ((\<forall>n rq. \<exists>v. tr n rq = Response 200 (Some v)) \<longrightarrow> length new \<le> nat max_pages)"
    by blast
qed

text \<open>Two full pages and an empty third one under \<open>max_pages = 10\<close>: three requests;
  under \<open>max_pages = 2\<close>: two.\<close>

theorem search_pagination_witness:
  "sent (snd (search_subdomains three_pages demo_client ''example.com'' 100 10 fresh_world))
     = map (page_request demo_client ''example.com'' 100) [1, 2, 3]
   \<and> (\<exists>hosts. fst (search_subdomains three_pages demo_client ''example.com'' 100 10 fresh_world)
         = Inr (hosts, JDict [(''pages'', JList [page_a, page_b, page_end])]))
   \<and> length (sent (snd (search_subdomains three_pages demo_client ''example.com'' 100 2 fresh_world)))
       \<le> 2"
proof -
  have h: "int (length [page_a, page_b]) < 10
      \<and> serves three_pages (length (sent fresh_world))
           (map (page_request demo_client ''example.com'' 100) [1..int (length [page_a, page_b]) + 1])
           ([page_a, page_b] @ [page_end])
      \<and> list_all full_page [page_a, page_b] \<and> last_page page_end"
    by code_simp
  have h3: "3 \<le> (10::int)
      \<and> serves three_pages (length (sent fresh_world))
           (map (page_request demo_client ''example.com'' 100) [1, 2, 3]) [page_a, page_b, page_end]
      \<and> full_page page_a \<and> full_page page_b \<and> last_page page_end"
    by code_simp
  have u: "[1..int (length [page_a, page_b]) + 1] = [1, 2, 3]"
    by (simp add: upto_rec1)
  have always: "\<forall>n rq. \<exists>v. three_pages n rq = Response 200 (Some v)"
    by simp
  note t = search_pagination [of _ _ three_pages fresh_world demo_client "''example.com''" 100]
  from t [of "[page_a, page_b]" 10 page_end page_a page_b page_end, THEN conjunct1, THEN mp, OF h]
  have a: "sent (snd (search_subdomains three_pages demo_client ''example.com'' 100 10 fresh_world))
     = map (page_request demo_client ''example.com'' 100) [1, 2, 3]"
    unfolding u by simp
  from t [of "[page_a, page_b]" 10 page_end page_a page_b page_end,
          THEN conjunct2, THEN conjunct1, THEN mp, OF h3]
  have b: "\<exists>hosts. fst (search_subdomains three_pages demo_client ''example.com'' 100 10 fresh_world)
         = Inr (hosts, JDict [(''pages'', JList [page_a, page_b, page_end])])"
    by simp
  from t [of "[page_a, page_b]" 2 page_end page_a page_b page_end,
          THEN conjunct2, THEN conjunct2] always
  have c: "length (sent (snd (search_subdomains three_pages demo_client ''example.com'' 100 2 fresh_world)))
       \<le> 2"
    by auto
  from a b c show ?thesis by blast
qed

text \<open>
  A record whose \<open>hostname\<close> key is present with the empty string: the selected
  hostname is the \<open>domain\<close> field, and the search returns it.
\<close>

theorem record_hostname_counterexample:
  "map_of [(''hostname'', JStr []), (''domain'', JStr ''api.example.com'')] ''hostname''
     = Some (JStr [])
   \<and> record_hostname (JDict [(''hostname'', JStr []), (''domain'', JStr ''api.example.com'')])
     = Inr (JStr ''api.example.com'')
   \<and> fst (search_subdomains fallback_transport demo_client ''example.com'' 100 10 fresh_world)
     = Inr ([''api.example.com''], JDict [(''pages'', JList [page_empty_hostname, page_end])])"
  by code_simp

text \<open>
  Claim C9, amended. The selected hostname of a record is its \<open>hostname\<close> field when
  that field is present and truthy (not null, not empty), and otherwise its
  \<open>domain\<close> field (null when absent); the search loop feeds exactly this value to
  the suffix filter.
\<close>

theorem record_hostname_selection:
  "(map_of kvs ''hostname'' = Some h \<and> truthy h \<longrightarrow> record_hostname (JDict kvs) = Inr h)
   \<and> (map_of kvs ''hostname'' = None \<or> (\<exists>h. map_of kvs ''hostname'' = Some h \<and> \<not> truthy h) \<longrightarrow>
        record_hostname (JDict kvs) =
          Inr (case map_of kvs ''domain'' of Some d \<Rightarrow> d | None \<Rightarrow> JNull))
   \<and> add_records domain (JDict kvs # rs) acc =
        (case record_hostname (JDict kvs) of
           Inl e \<Rightarrow> Inl e
         | Inr hostname \<Rightarrow>
             (case add_hostname domain hostname acc of
                Inl e \<Rightarrow> Inl e
              | Inr acc' \<Rightarrow> add_records domain rs acc'))"
  by (auto simp: record_hostname_def py_or_def)

text \<open>A record with a hostname, one with a domain only, one with a null hostname.\<close>

theorem record_hostname_selection_witness:
  "record_hostname (JDict [(''hostname'', JStr ''a.example.com''), (''domain'', JStr ''example.com'')])
     = Inr (JStr ''a.example.com'')
   \<and> record_hostname (JDict [(''domain'', JStr ''example.com'')]) = Inr (JStr ''example.com'')
   \<and> record_hostname (JDict [(''hostname'', JNull), (''domain'', JStr ''example.com'')])
     = Inr (JStr ''example.com'')"
  using record_hostname_selection
          [of "[(''hostname'', JStr ''a.example.com''), (''domain'', JStr ''example.com'')]"
              "JStr ''a.example.com''"]
        record_hostname_selection [of "[(''domain'', JStr ''example.com'')]"]
        record_hostname_selection [of "[(''hostname'', JNull), (''domain'', JStr ''example.com'')]"]
  by simp

end
